theory Spec2Isabelle
  imports Main "HOL-Library.Multiset"
begin

section \<open>The feed poller of \<open>feeds/torrentpier.py\<close>\<close>

text \<open>
  The module polls one tracker page, extracts (name, link) pairs from its rows and prints
  the pairs whose link is not in the cache \<open>seen_urls\<close>. The embedding follows the three
  coroutines of the module: \<open>extractor\<close>, \<open>tracker\<close> and \<open>http_feed\<close>.

  What the module gets from outside is taken as data:
  \<^item> the configuration values of \<open>utils.config\<close> and the library function
    \<open>urllib.parse.urljoin\<close> are the fields of the record \<open>env\<close>;
  \<^item> the answer of the network and of the lxml parser to one request is a value of the
    type \<open>get\<close>: the exception \<open>session.get\<close> raises, or the status and the body; the
    body is the exception \<open>resp.text()\<close> raises, or the parsed page; the parsed page is
    the parser's failure, or the rows \<open>root.xpath(CONTENT_PATH)\<close> finds, each with the
    two strings \<open>tag.xpath(NAME_PATH)\<close> and \<open>tag.xpath(LINK_PATH)\<close>;
  \<^item> what the module does to the outside is a list of events: a request, a line written
    to standard output or to standard error, a sleep of a given length.
\<close>

subsection \<open>Strings\<close>

text \<open>
  Python's \<open>str.strip()\<close> removes leading and trailing whitespace. A \<open>char\<close> of HOL has
  256 values; the whitespace characters of Python among the first 256 code points are
  listed here.
\<close>

definition isspace :: "char \<Rightarrow> bool" where
  "isspace c = (c \<in> set [CHR 0x09, CHR 0x0A, CHR 0x0B, CHR 0x0C, CHR 0x0D, CHR 0x1C,
     CHR 0x1D, CHR 0x1E, CHR 0x1F, CHR 0x20, CHR 0x85, CHR 0xA0])"

definition strip :: "string \<Rightarrow> string" where
  "strip s = dropWhile isspace (rev (dropWhile isspace (rev s)))"

subsection \<open>Configuration and events\<close>

text \<open>
  \<open>timeout_interval\<close> is a number of seconds, taken as an integer; \<open>cache_limit\<close> is the
  capacity handed to the cache. \<open>TimeoutError_is_OSError\<close> says which interpreter runs the
  module: from Python 3.11 on \<open>asyncio.TimeoutError\<close> is the builtin \<open>TimeoutError\<close>, a
  subclass of \<open>OSError\<close>; before, it is a class of its own.
\<close>

record env =
  tracker_url :: string
  cache_limit :: nat
  timeout_interval :: int
  urljoin :: "string \<Rightarrow> string \<Rightarrow> string"
  TimeoutError_is_OSError :: bool

text \<open>\<open>COOLDOWN = timeout_interval() * 10\<close>\<close>

definition COOLDOWN :: "env \<Rightarrow> int" where
  "COOLDOWN env = timeout_interval env * 10"

datatype event = Get | Stdout string | Stderr string | Sleep int

text \<open>
  \<open>aprint\<close> writes its argument and a line feed, to standard output or, with
  \<open>use_stderr=True\<close>, to standard error.
\<close>

definition aprint :: "string \<Rightarrow> event" where
  "aprint s = Stdout (s @ [CHR 0x0A])"

definition aprint_stderr :: "string \<Rightarrow> event" where
  "aprint_stderr s = Stderr (s @ [CHR 0x0A])"

subsection \<open>Exceptions\<close>

text \<open>
  The exceptions a request can raise, each with the text \<open>str(e)\<close>: the five classes the
  module names in \<open>HTTP_EXCEPTIONS\<close>, \<open>aiohttp.ServerDisconnectedError\<close> (the server closed
  the connection; a \<open>ClientError\<close> that is neither a \<open>ClientOSError\<close> nor an \<open>OSError\<close>), and
  any other exception. The classes that are or can be an \<open>OSError\<close> carry their \<open>errno\<close>,
  which may be \<open>None\<close>. \<open>ClientOSError\<close> is a subclass of \<open>OSError\<close>. \<open>TimeoutError\<close> is
  \<open>asyncio.TimeoutError\<close>, the class the module imports: whether it is an \<open>OSError\<close>
  depends on the interpreter; where it is not one, its \<open>errno\<close> is never read.
\<close>

datatype exn =
  ClientOSError "int option" string
  | ClientPayloadError string
  | InvalidURL string
  | OSError "int option" string
  | TimeoutError "int option" string
  | ServerDisconnectedError string
  | OtherException string

fun HTTP_EXCEPTIONS :: "exn \<Rightarrow> bool" where
  "HTTP_EXCEPTIONS (ServerDisconnectedError m) = False"
| "HTTP_EXCEPTIONS (OtherException m) = False"
| "HTTP_EXCEPTIONS e = True"

fun isinstance_OSError :: "env \<Rightarrow> exn \<Rightarrow> bool" where
  "isinstance_OSError env (ClientOSError n m) = True"
| "isinstance_OSError env (OSError n m) = True"
| "isinstance_OSError env (TimeoutError n m) = TimeoutError_is_OSError env"
| "isinstance_OSError env e = False"

fun isinstance_TimeoutError :: "exn \<Rightarrow> bool" where
  "isinstance_TimeoutError (TimeoutError n m) = True"
| "isinstance_TimeoutError e = False"

fun errno :: "exn \<Rightarrow> int option" where
  "errno (ClientOSError n m) = n"
| "errno (OSError n m) = n"
| "errno (TimeoutError n m) = n"
| "errno e = None"

fun str :: "exn \<Rightarrow> string" where
  "str (ClientOSError n m) = m"
| "str (ClientPayloadError m) = m"
| "str (InvalidURL m) = m"
| "str (OSError n m) = m"
| "str (TimeoutError n m) = m"
| "str (ServerDisconnectedError m) = m"
| "str (OtherException m) = m"

definition ECONNRESET :: int where
  "ECONNRESET = 104"

subsection \<open>The extractor\<close>

record tag =
  NAME :: string
  LINK :: string

datatype html = ParserError | Root "tag list"

type_synonym entry = "string \<times> string"

text \<open>
  The loop \<open>for tag in reversed(content)\<close>, called on the reversed list.
\<close>

fun extractor_loop :: "env \<Rightarrow> tag list \<Rightarrow> entry list" where
  "extractor_loop env [] = []"
| "extractor_loop env (t # tags) =
     (let name = NAME t; link = LINK t in
      if name \<noteq> [] \<and> link \<noteq> []
      then (strip name, urljoin env (tracker_url env) (strip link)) # extractor_loop env tags
      else extractor_loop env tags)"

fun extractor :: "env \<Rightarrow> html \<Rightarrow> event list \<times> entry list" where
  "extractor env ParserError = ([], [])"
| "extractor env (Root content) =
     (if content = [] then ([Sleep (COOLDOWN env)], [])
      else ([], extractor_loop env (rev content)))"

subsection \<open>The tracker client\<close>

datatype body = TextRaises exn | Text html

datatype get = GetRaises exn | Response nat body

fun tracker :: "env \<Rightarrow> get \<Rightarrow> event list \<times> (exn + entry list)" where
  "tracker env (GetRaises e) =
     (if HTTP_EXCEPTIONS e
      then (Get # (if isinstance_OSError env e \<and> errno e \<noteq> Some ECONNRESET
                   then [aprint_stderr (''Connection error: '' @ str e)] else []),
            Inr [])
      else ([Get], Inl e))"
| "tracker env (Response status b) =
     (if status \<noteq> 200 then ([Get], Inr [])
      else case b of
        TextRaises e \<Rightarrow>
          (if isinstance_TimeoutError e then ([Get], Inr []) else ([Get], Inl e))
      | Text page \<Rightarrow> (case extractor env page of (evs, es) \<Rightarrow> (Get # evs, Inr es)))"

subsection \<open>The cache\<close>

text \<open>
  Modelled from the spec: the class \<open>utils.cache.LRU\<close>, which is not among the source
  files. The spec (sections 3 and 4.2) describes an ordered mapping from link to an
  opaque marker with a fixed capacity: an insertion makes the key the most recently
  used one and evicts the least recently used key when the capacity is exceeded; a
  membership test answers whether the key is present and, for a present key, refreshes
  its recency; construction from a sequence inserts its keys in order. The marker is
  always \<open>None\<close>, so the model keeps the keys only, least recently used first.
\<close>

record LRU =
  maxsize :: nat
  order :: "string list"

text \<open>Modelled from the spec: the eviction of \<open>utils.cache.LRU\<close>, which drops the least
  recently used keys while there are more keys than the capacity.\<close>

definition evict :: "nat \<Rightarrow> string list \<Rightarrow> string list" where
  "evict n ks = drop (length ks - n) ks"

text \<open>Modelled from the spec: \<open>put(key)\<close> of \<open>utils.cache.LRU\<close>.\<close>

definition LRU_put :: "string \<Rightarrow> LRU \<Rightarrow> LRU" where
  "LRU_put k c = c\<lparr>order := evict (maxsize c) (removeAll k (order c) @ [k])\<rparr>"

text \<open>Modelled from the spec: \<open>contains(key)\<close> of \<open>utils.cache.LRU\<close>, the test \<open>url in seen_urls\<close>.\<close>

definition LRU_contains :: "string \<Rightarrow> LRU \<Rightarrow> bool \<times> LRU" where
  "LRU_contains k c =
     (if k \<in> set (order c) then (True, c\<lparr>order := removeAll k (order c) @ [k]\<rparr>)
      else (False, c))"

text \<open>Modelled from the spec: \<open>seed(keys)\<close> of \<open>utils.cache.LRU\<close>, the constructor call
  \<open>LRU(cache_limit(), [(url, None), ...])\<close>.\<close>

definition LRU_new :: "nat \<Rightarrow> string list \<Rightarrow> LRU" where
  "LRU_new n ks = fold LRU_put ks \<lparr>maxsize = n, order = []\<rparr>"

text \<open>Modelled from the spec: the truth value of a \<open>utils.cache.LRU\<close>, false when it has no key.\<close>

definition LRU_bool :: "LRU \<Rightarrow> bool" where
  "LRU_bool c = (order c \<noteq> [])"

subsection \<open>The poll loop\<close>

text \<open>
  The body of \<open>async for torrent, url in tracker(session)\<close> in the running loop.
\<close>

fun running_loop :: "entry list \<Rightarrow> LRU \<Rightarrow> event list \<times> LRU" where
  "running_loop [] seen_urls = ([], seen_urls)"
| "running_loop ((torrent, url) # es) seen_urls =
     (case LRU_contains url seen_urls of (found, seen1) \<Rightarrow>
      case running_loop es seen1 of (out, seen2) \<Rightarrow>
        ((if \<not> found then [aprint (torrent @ [CHR 0x00] @ url)] else []) @ out, seen2))"

text \<open>
  \<open>http_feed\<close> never returns once it runs: its behaviour is what it does on each finite
  prefix of the answers it gets. One answer is consumed by the seeding sweep, each
  further one by one turn of \<open>while True\<close>. \<open>ABORT\<close> is \<open>SystemExit\<close> with its message,
  \<open>CRASH\<close> an exception that no handler of the module catches; both end the process.
\<close>

datatype state = SEEDING | RUNNING LRU | ABORT string | CRASH exn

fun http_feed_step :: "env \<Rightarrow> state \<Rightarrow> get \<Rightarrow> event list \<times> state" where
  "http_feed_step env SEEDING g =
     (case tracker env g of
        (evs, Inl e) \<Rightarrow> (evs, CRASH e)
      | (evs, Inr es) \<Rightarrow>
          (let seen_urls = LRU_new (cache_limit env) (map snd es) in
           if \<not> LRU_bool seen_urls then (evs, ABORT ''Expired credentials'')
           else (evs, RUNNING seen_urls)))"
| "http_feed_step env (RUNNING seen_urls) g =
     (case tracker env g of
        (evs, Inl e) \<Rightarrow> (evs, CRASH e)
      | (evs, Inr es) \<Rightarrow>
          (case running_loop es seen_urls of (out, seen1) \<Rightarrow>
             (evs @ out @ [Sleep (timeout_interval env)], RUNNING seen1)))"
| "http_feed_step env (ABORT m) g = ([], ABORT m)"
| "http_feed_step env (CRASH e) g = ([], CRASH e)"

fun http_feed :: "env \<Rightarrow> state \<Rightarrow> get list \<Rightarrow> event list \<times> state" where
  "http_feed env s [] = ([], s)"
| "http_feed env s (g # gs) =
     (case http_feed_step env s g of (evs, s1) \<Rightarrow>
      case http_feed env s1 gs of (evs1, s2) \<Rightarrow> (evs @ evs1, s2))"

text \<open>
  The time the process sleeps before its next request: the sum of the sleeps up to the
  first \<open>Get\<close> of an event list.
\<close>

fun next_fetch_delay :: "event list \<Rightarrow> int" where
  "next_fetch_delay [] = 0"
| "next_fetch_delay (Get # evs) = 0"
| "next_fetch_delay (Sleep d # evs) = d + next_fetch_delay evs"
| "next_fetch_delay (ev # evs) = next_fetch_delay evs"

text \<open>The lines written to standard output and to standard error, in order.\<close>

fun stdout :: "event list \<Rightarrow> string list" where
  "stdout [] = []"
| "stdout (Stdout s # evs) = s # stdout evs"
| "stdout (ev # evs) = stdout evs"

fun stderr :: "event list \<Rightarrow> string list" where
  "stderr [] = []"
| "stderr (Stderr s # evs) = s # stderr evs"
| "stderr (ev # evs) = stderr evs"

subsection \<open>A tracker for the examples\<close>

text \<open>
  The examples poll \<open>https://tracker/\<close> every 30 seconds. \<open>example_urljoin\<close> is what
  \<open>urljoin\<close> returns for this base and the links of the examples: the base for an
  empty link, the link appended to the host for a link that starts with a slash.
\<close>

definition example_urljoin :: "string \<Rightarrow> string \<Rightarrow> string" where
  "example_urljoin base link =
     (if link = [] then base
      else if hd link = CHR ''/'' then ''https://tracker'' @ link
      else base @ link)"

definition example_env :: env where
  "example_env = \<lparr>tracker_url = ''https://tracker/'', cache_limit = 10,
     timeout_interval = 30, urljoin = example_urljoin, TimeoutError_is_OSError = True\<rparr>"

definition row_A :: tag where
  "row_A = \<lparr>NAME = ''A'', LINK = ''/t/1''\<rparr>"

definition row_B :: tag where
  "row_B = \<lparr>NAME = ''B'', LINK = ''/t/2''\<rparr>"

definition listing :: "tag list \<Rightarrow> get" where
  "listing rows = Response 200 (Text (Root rows))"

definition line_B :: string where
  "line_B = ''B'' @ [CHR 0x00] @ ''https://tracker/t/2'' @ [CHR 0x0A]"

text \<open>A row whose name has a line feed between two letters.\<close>

definition row_XY :: tag where
  "row_XY = \<lparr>NAME = ''X'' @ [CHR 0x0A] @ ''Y'', LINK = ''/t/2''\<rparr>"

section \<open>Properties\<close>

lemma extractor_loop_eq:
  "extractor_loop env tags =
     map (\<lambda>t. (strip (NAME t), urljoin env (tracker_url env) (strip (LINK t))))
       (filter (\<lambda>t. NAME t \<noteq> [] \<and> LINK t \<noteq> []) tags)"
  by (induction tags) (simp_all add: Let_def)

subsection \<open>Stripping\<close>

lemma strip_edges:
  "strip s = [] \<or> (\<not> isspace (hd (strip s)) \<and> \<not> isspace (last (strip s)))"
proof (cases "strip s = []")
  case True
  then show ?thesis by simp
next
  case False
  let ?r = "rev (dropWhile isspace (rev s))"
  have ne: "dropWhile isspace ?r \<noteq> []" using False by (simp add: strip_def)
  then have h: "\<not> isspace (hd (dropWhile isspace ?r))" by (rule hd_dropWhile)
  have rne: "?r \<noteq> []" using ne by (metis dropWhile.simps(1))
  obtain ys where ys: "?r = ys @ dropWhile isspace ?r"
    by (metis takeWhile_dropWhile_id)
  then have "last ?r = last (dropWhile isspace ?r)" using ne by (metis last_appendR)
  moreover have "last ?r = hd (dropWhile isspace (rev s))" using rne by (simp add: last_rev)
  moreover have "\<not> isspace (hd (dropWhile isspace (rev s)))" using rne by (simp add: hd_dropWhile)
  ultimately have "\<not> isspace (last (dropWhile isspace ?r))" by simp
  with h show ?thesis by (simp add: strip_def)
qed

lemma strip_whitespace_only: "list_all isspace s \<Longrightarrow> strip s = []"
proof -
  assume "list_all isspace s"
  then have "\<forall>x\<in>set (rev s). isspace x"
    by (simp add: list_all_iff)
  then have "dropWhile isspace (rev s) = []"
    by (simp only: dropWhile_eq_Nil_conv)
  then have "strip s = dropWhile isspace (rev [])"
    by (simp only: strip_def)
  then show ?thesis by simp
qed

lemma extractor_entries:
  "snd (extractor env (Root content)) =
     rev (map (\<lambda>t. (strip (NAME t), urljoin env (tracker_url env) (strip (LINK t))))
       (filter (\<lambda>t. NAME t \<noteq> [] \<and> LINK t \<noteq> []) content))"
  by (simp add: extractor_loop_eq rev_map rev_filter)

subsection \<open>The cache\<close>

lemma evict_fits: "length xs \<le> n \<Longrightarrow> evict n xs = xs"
  by (simp add: evict_def)

lemma evict_exact: "length s = n \<Longrightarrow> evict n (p @ s) = s"
  by (simp add: evict_def)

lemma evict_suffix: "n \<le> length s \<Longrightarrow> evict n (p @ s) = evict n s"
  by (simp add: evict_def)

lemma evict_length: "length (evict n xs) \<le> n"
  by (simp add: evict_def)

lemma evict_subset: "set (evict n xs) \<subseteq> set xs"
  unfolding evict_def by (rule set_drop_subset)


lemma evict_split: "n \<le> length r \<Longrightarrow> \<exists>p. r = p @ evict n r \<and> length (evict n r) = n"
proof -
  assume "n \<le> length r"
  then have "length (evict n r) = n" by (simp add: evict_def)
  moreover have "r = take (length r - n) r @ evict n r" by (simp add: evict_def)
  ultimately show ?thesis by blast
qed

lemma remdups_snoc: "remdups (xs @ [x]) = removeAll x (remdups xs) @ [x]"
  by (induction xs) auto

text \<open>
  Putting a key into the evicted list gives what putting it into the whole list and
  evicting afterwards gives: the keys evicted earlier would be evicted again.
\<close>

lemma evict_put:
  assumes "distinct r"
  shows "evict n (removeAll x (evict n r) @ [x]) = evict n (removeAll x r @ [x])"
proof (cases "n \<le> length r")
  case False
  then have "evict n r = r" by (simp add: evict_fits)
  then show ?thesis by simp
next
  case True
  then obtain p where r: "r = p @ evict n r" and l: "length (evict n r) = n"
    using evict_split by blast
  let ?s = "evict n r"
  have d: "distinct (p @ ?s)" using assms r by simp
  show ?thesis
  proof (cases "x \<in> set ?s")
    case True
    then have "x \<notin> set p" using d by auto
    then have "removeAll x (p @ ?s) = p @ removeAll x ?s" by simp
    then have ra: "removeAll x r = p @ removeAll x ?s" using r by simp
    have "distinct ?s" using d by simp
    then have "length (removeAll x ?s) = length ?s - 1"
      using True by (simp add: distinct_remove1_removeAll[symmetric] length_remove1)
    moreover have "0 < length ?s" using True by (metis length_pos_if_in_set)
    ultimately have ln: "length (removeAll x ?s @ [x]) = n" using l by simp
    have "evict n (removeAll x ?s @ [x]) = removeAll x ?s @ [x]"
      using ln by (simp add: evict_fits)
    moreover have "evict n (p @ (removeAll x ?s @ [x])) = removeAll x ?s @ [x]"
      using ln by (rule evict_exact)
    ultimately show ?thesis using ra by simp
  next
    case False
    then have s: "removeAll x ?s = ?s" by simp
    have "removeAll x (p @ ?s) = removeAll x p @ ?s" using s by simp
    then have ra: "removeAll x r = removeAll x p @ ?s" using r by simp
    have "n \<le> length (?s @ [x])" using l by simp
    then have "evict n (removeAll x p @ (?s @ [x])) = evict n (?s @ [x])"
      by (rule evict_suffix)
    then show ?thesis using ra s by simp
  qed
qed

lemma LRU_put_maxsize: "maxsize (LRU_put k c) = maxsize c"
  by (simp add: LRU_put_def)

lemma LRU_put_order: "order (LRU_put k c) = evict (maxsize c) (removeAll k (order c) @ [k])"
  by (simp add: LRU_put_def)

lemma LRU_new_Nil: "LRU_new n [] = \<lparr>maxsize = n, order = []\<rparr>"
  by (simp add: LRU_new_def)

lemma LRU_new_snoc: "LRU_new n (ks @ [k]) = LRU_put k (LRU_new n ks)"
  by (simp add: LRU_new_def)

lemma LRU_new_maxsize: "maxsize (LRU_new n ks) = n"
proof (induction ks rule: rev_induct)
  case Nil
  show ?case by (simp add: LRU_new_Nil)
next
  case (snoc k ks)
  then show ?case by (simp add: LRU_new_snoc LRU_put_maxsize)
qed

text \<open>
  A cache built from a sequence of keys holds the last \<open>n\<close> distinct keys of the sequence,
  each at the place of its last occurrence (\<open>remdups\<close> keeps the last occurrence).
\<close>

lemma LRU_new_order: "order (LRU_new n ks) = evict n (remdups ks)"
proof (induction ks rule: rev_induct)
  case Nil
  show ?case by (simp add: LRU_new_Nil evict_def)
next
  case (snoc k ks)
  have "order (LRU_new n (ks @ [k])) = evict n (removeAll k (order (LRU_new n ks)) @ [k])"
    by (simp add: LRU_new_snoc LRU_put_order LRU_new_maxsize)
  also have "\<dots> = evict n (removeAll k (evict n (remdups ks)) @ [k])"
    using snoc by simp
  also have "\<dots> = evict n (removeAll k (remdups ks) @ [k])"
    by (rule evict_put) simp
  also have "\<dots> = evict n (remdups (ks @ [k]))"
    by (simp only: remdups_snoc)
  finally show ?case .
qed

lemma LRU_new_subset: "set (order (LRU_new n ks)) \<subseteq> set ks"
  using evict_subset[of n "remdups ks"] by (simp add: LRU_new_order)

lemma LRU_new_length: "length (order (LRU_new n ks)) \<le> n"
  by (simp add: LRU_new_order evict_length)

lemma LRU_new_room: "card (set ks) \<le> n \<Longrightarrow> set (order (LRU_new n ks)) = set ks"
proof -
  assume "card (set ks) \<le> n"
  then have "length (remdups ks) \<le> n" by (simp add: length_remdups_card_conv)
  then have "evict n (remdups ks) = remdups ks" by (rule evict_fits)
  then show ?thesis by (simp add: LRU_new_order)
qed


lemma LRU_contains_fst: "fst (LRU_contains k c) = (k \<in> set (order c))"
  by (simp add: LRU_contains_def)

lemma LRU_contains_keys: "set (order (snd (LRU_contains k c))) = set (order c)"
  by (auto simp: LRU_contains_def)

lemma LRU_contains_maxsize: "maxsize (snd (LRU_contains k c)) = maxsize c"
  by (simp add: LRU_contains_def)

lemma running_loop_keys:
  "set (order (snd (running_loop es c))) = set (order c)"
proof (induction es arbitrary: c)
  case Nil
  then show ?case by simp
next
  case (Cons e es)
  obtain torrent url where e: "e = (torrent, url)" by (cases e)
  have "set (order (snd (running_loop es (snd (LRU_contains url c))))) = set (order c)"
    by (simp add: Cons.IH LRU_contains_keys)
  then show ?case using e by (simp add: split_beta)
qed

lemma running_loop_maxsize:
  "maxsize (snd (running_loop es c)) = maxsize c"
proof (induction es arbitrary: c)
  case Nil
  then show ?case by simp
next
  case (Cons e es)
  obtain torrent url where e: "e = (torrent, url)" by (cases e)
  have "maxsize (snd (running_loop es (snd (LRU_contains url c)))) = maxsize c"
    by (simp add: Cons.IH LRU_contains_maxsize)
  then show ?case using e by (simp add: split_beta)
qed

lemma running_loop_out:
  "fst (running_loop es c) =
     map (\<lambda>e. aprint (fst e @ [CHR 0x00] @ snd e)) (filter (\<lambda>e. snd e \<notin> set (order c)) es)"
proof (induction es arbitrary: c)
  case Nil
  then show ?case by simp
next
  case (Cons e es)
  obtain torrent url where e: "e = (torrent, url)" by (cases e)
  have "fst (running_loop es (snd (LRU_contains url c))) =
     map (\<lambda>e. aprint (fst e @ [CHR 0x00] @ snd e)) (filter (\<lambda>e. snd e \<notin> set (order c)) es)"
    by (simp add: Cons.IH LRU_contains_keys)
  then show ?case using e by (simp add: split_beta LRU_contains_fst)
qed

lemma extractor_events: "fst (extractor env page) = [] \<or> fst (extractor env page) = [Sleep (COOLDOWN env)]"
  by (cases page) simp_all

lemma tracker_events:
  "\<exists>evs. fst (tracker env g) = Get # evs \<and> (\<forall>s. Stdout s \<notin> set evs) \<and> (\<forall>ev\<in>set evs. ev \<noteq> Get)"
proof (cases g)
  case (GetRaises e)
  then show ?thesis by (simp add: aprint_stderr_def)
next
  case (Response status b)
  show ?thesis
  proof (cases b)
    case (TextRaises e)
    then show ?thesis using Response by simp
  next
    case (Text page)
    then show ?thesis using Response extractor_events[of env page]
      by (auto simp: split_beta)
  qed
qed

subsection \<open>One turn of the loop\<close>

lemmas example_defs = example_env_def example_urljoin_def row_A_def row_B_def row_XY_def
  listing_def line_B_def
  strip_def isspace_def LRU_new_def LRU_put_def evict_def LRU_contains_def LRU_bool_def aprint_def
  aprint_stderr_def COOLDOWN_def

lemma tracker_no_stdout: "stdout (fst (tracker env g)) = []"
proof (cases g)
  case (GetRaises e)
  then show ?thesis by (simp add: aprint_stderr_def)
next
  case (Response status b)
  show ?thesis
  proof (cases b)
    case (TextRaises e)
    then show ?thesis using Response by simp
  next
    case (Text p)
    then show ?thesis using Response extractor_events[of env p]
      by (auto simp: split_beta)
  qed
qed

lemma tracker_Get: "\<exists>evs. fst (tracker env g) = Get # evs"
  using tracker_events by blast

lemma stdout_append: "stdout (xs @ ys) = stdout xs @ stdout ys"
  by (induction xs rule: stdout.induct) simp_all

lemma stdout_aprint:
  "stdout (map (\<lambda>e. aprint (f e)) es) = map (\<lambda>e. f e @ [CHR 0x0A]) es"
  by (induction es) (simp_all add: aprint_def)

lemma http_feed_ABORT: "http_feed env (ABORT m) gs = ([], ABORT m)"
  by (induction gs) simp_all

lemma http_feed_CRASH: "http_feed env (CRASH e) gs = ([], CRASH e)"
  by (induction gs) simp_all

lemma running_step_Inr:
  assumes "tracker env g = (tevs, Inr es)"
  shows "http_feed_step env (RUNNING seen) g =
    (tevs @ fst (running_loop es seen) @ [Sleep (timeout_interval env)],
     RUNNING (snd (running_loop es seen)))"
  using assms by (simp add: split_beta)

lemma running_step_stdout:
  assumes "tracker env g = (tevs, Inr es)"
  shows "stdout (fst (http_feed_step env (RUNNING seen) g)) =
     map (\<lambda>e. fst e @ [CHR 0x00] @ snd e @ [CHR 0x0A]) (filter (\<lambda>e. snd e \<notin> set (order seen)) es)"
proof -
  have t: "stdout tevs = []" using tracker_no_stdout[of env g] assms by simp
  have "stdout (fst (running_loop es seen)) =
     map (\<lambda>e. (fst e @ [CHR 0x00] @ snd e) @ [CHR 0x0A]) (filter (\<lambda>e. snd e \<notin> set (order seen)) es)"
    unfolding running_loop_out by (rule stdout_aprint)
  then show ?thesis using t
    by (simp add: running_step_Inr[OF assms] stdout_append del: http_feed_step.simps)
qed

lemma running_step_state:
  "snd (http_feed_step env (RUNNING seen) g) = RUNNING seen1 \<Longrightarrow>
   set (order seen1) = set (order seen) \<and> maxsize seen1 = maxsize seen"
proof -
  assume a: "snd (http_feed_step env (RUNNING seen) g) = RUNNING seen1"
  obtain tevs r where t: "tracker env g = (tevs, r)" by (cases "tracker env g")
  show ?thesis
  proof (cases r)
    case (Inl e)
    then show ?thesis using a t by simp
  next
    case (Inr es)
    then have "seen1 = snd (running_loop es seen)"
      using a t by (simp add: split_beta)
    then show ?thesis by (simp add: running_loop_keys running_loop_maxsize)
  qed
qed

lemma running_step_cases:
  "(\<exists>seen1. snd (http_feed_step env (RUNNING seen) g) = RUNNING seen1) \<or>
   (\<exists>e. snd (http_feed_step env (RUNNING seen) g) = CRASH e)"
proof -
  obtain tevs r where t: "tracker env g = (tevs, r)" by (cases "tracker env g")
  show ?thesis using t by (cases r) (simp_all add: split_beta)
qed

lemma http_feed_keys:
  "snd (http_feed env (RUNNING seen) gs) = RUNNING seen1 \<Longrightarrow>
   set (order seen1) = set (order seen) \<and> maxsize seen1 = maxsize seen"
proof (induction gs arbitrary: seen)
  case Nil
  then show ?case by simp
next
  case (Cons g gs)
  from running_step_cases[of env seen g] show ?case
  proof
    assume "\<exists>seen2. snd (http_feed_step env (RUNNING seen) g) = RUNNING seen2"
    then obtain seen2 where s: "snd (http_feed_step env (RUNNING seen) g) = RUNNING seen2" by blast
    then have "snd (http_feed env (RUNNING seen2) gs) = RUNNING seen1"
      using Cons.prems by (simp add: split_beta)
    then have "set (order seen1) = set (order seen2) \<and> maxsize seen1 = maxsize seen2"
      by (rule Cons.IH)
    then show ?thesis using running_step_state[OF s] by simp
  next
    assume "\<exists>e. snd (http_feed_step env (RUNNING seen) g) = CRASH e"
    then obtain e where "snd (http_feed_step env (RUNNING seen) g) = CRASH e" by blast
    then have "snd (http_feed env (RUNNING seen) (g # gs)) = CRASH e"
      by (simp add: split_beta http_feed_CRASH)
    then show ?thesis using Cons.prems by simp
  qed
qed

lemma running_step_Get: "\<exists>evs. fst (http_feed_step env (RUNNING seen) g) = Get # evs"
proof -
  obtain tevs r where t: "tracker env g = (tevs, r)" by (cases "tracker env g")
  obtain evs where "tevs = Get # evs" using tracker_Get[of env g] t by auto
  then show ?thesis using t by (cases r) (simp_all add: split_beta)
qed



section \<open>The claims\<close>

subsection \<open>The poll loop\<close>

text \<open>
  C1. The claim: in the running state the loop emits every yielded entry whose link is
  not in the cache and inserts the link, so that an entry already emitted is not emitted
  a second time. The running loop only tests \<open>url not in seen_urls\<close>; with a cache whose
  membership test does not insert, the link of an emitted entry never enters the cache.
  At the input below the seeding sweep sees entry A, and the next two sweeps see A and
  B: the line of B is written in both.
\<close>

theorem http_feed_reemits_unseeded_entry:
  "fst (http_feed example_env SEEDING
         [listing [row_A], listing [row_A, row_B], listing [row_A, row_B]])
   = [Get, Get, Stdout line_B, Sleep 30, Get, Stdout line_B, Sleep 30]"
  by (simp add: example_defs)




text \<open>
  C3. The seeding sweep writes nothing to standard output. When it leaves the process
  running, the cache holds the last \<open>cache_limit\<close> distinct links of the sweep, in the
  order of their last occurrence: links of the sweep only, at most \<open>cache_limit\<close> of
  them, and all of them when the sweep has no more than \<open>cache_limit\<close> distinct links.
\<close>

theorem seeding_is_silent_and_fills_cache:
  "stdout (fst (http_feed_step env SEEDING g)) = []
   \<and> (tracker env g = (evs, Inr es) \<and> snd (http_feed_step env SEEDING g) = RUNNING seen \<longrightarrow>
        order seen = evict (cache_limit env) (remdups (map snd es))
        \<and> set (order seen) \<subseteq> snd ` set es
        \<and> length (order seen) \<le> cache_limit env
        \<and> (card (snd ` set es) \<le> cache_limit env \<longrightarrow> set (order seen) = snd ` set es))"
proof (intro conjI impI)
  obtain tevs r where t: "tracker env g = (tevs, r)" by (cases "tracker env g")
  have "fst (http_feed_step env SEEDING g) = tevs"
    using t by (cases r) (simp_all add: Let_def)
  then show "stdout (fst (http_feed_step env SEEDING g)) = []"
    using tracker_no_stdout[of env g] t by simp
next
  assume a: "tracker env g = (evs, Inr es) \<and> snd (http_feed_step env SEEDING g) = RUNNING seen"
  then have s: "seen = LRU_new (cache_limit env) (map snd es)"
    by (auto simp: Let_def split: if_splits)
  show "order seen = evict (cache_limit env) (remdups (map snd es))"
    using s by (simp add: LRU_new_order)
  show "set (order seen) \<subseteq> snd ` set es"
    using LRU_new_subset[of "cache_limit env" "map snd es"] s by simp
  show "length (order seen) \<le> cache_limit env"
    using s by (simp add: LRU_new_length)
  assume "card (snd ` set es) \<le> cache_limit env"
  then show "set (order seen) = snd ` set es"
    using LRU_new_room[of "map snd es" "cache_limit env"] s by simp
qed

theorem seeding_is_silent_and_fills_cache_witness:
  "fst (http_feed_step example_env SEEDING (listing [row_A, row_B])) = [Get]
   \<and> snd (http_feed_step example_env SEEDING (listing [row_A, row_B]))
      = RUNNING \<lparr>maxsize = 10, order = [''https://tracker/t/2'', ''https://tracker/t/1'']\<rparr>
   \<and> set [''https://tracker/t/2'', ''https://tracker/t/1'']
      = snd ` set [(''B'', ''https://tracker/t/2''), (''A'', ''https://tracker/t/1'')]"
proof -
  have t: "tracker example_env (listing [row_A, row_B])
     = ([Get], Inr [(''B'', ''https://tracker/t/2''), (''A'', ''https://tracker/t/1'')])"
    by (simp add: example_defs)
  have s: "http_feed_step example_env SEEDING (listing [row_A, row_B])
     = ([Get], RUNNING \<lparr>maxsize = 10, order = [''https://tracker/t/2'', ''https://tracker/t/1'']\<rparr>)"
    by (simp add: example_defs)
  have c: "card (snd ` set [(''B'', ''https://tracker/t/2''), (''A'', ''https://tracker/t/1'')])
      \<le> cache_limit example_env"
    by (simp add: example_defs)
  have "set (order \<lparr>maxsize = 10, order = [''https://tracker/t/2'', ''https://tracker/t/1'']\<rparr>)
      = snd ` set [(''B'', ''https://tracker/t/2''), (''A'', ''https://tracker/t/1'')]"
    using seeding_is_silent_and_fills_cache[of example_env "listing [row_A, row_B]" "[Get]"
        "[(''B'', ''https://tracker/t/2''), (''A'', ''https://tracker/t/1'')]"
        "\<lparr>maxsize = 10, order = [''https://tracker/t/2'', ''https://tracker/t/1'']\<rparr>"] t s c
    by (simp del: http_feed_step.simps)
  then show ?thesis using s by (simp del: http_feed_step.simps)
qed

text \<open>
  C4. The claim: after a page with no content row, the delay before the next request is
  the cooldown, ten times the poll interval, and not the cooldown plus the poll interval.
  It fails: with an interval of 30 the process sleeps 300 and then 30 before the next
  request, the extractor's cooldown and then the loop's own sleep.
\<close>

theorem cooldown_delay_counterexample:
  "fst (http_feed example_env SEEDING [listing [row_A], listing [], listing [row_A]])
      = [Get, Get, Sleep 300, Sleep 30, Get, Sleep 30]
   \<and> next_fetch_delay [Sleep 300, Sleep 30, Get, Sleep 30] \<noteq> COOLDOWN example_env"
  by (simp add: example_defs)

text \<open>
  C4, amended. In the running state a page with no content row makes the process sleep
  the cooldown, ten times the poll interval, and then the poll interval: eleven times
  the poll interval pass before the next request, and the cache is unchanged. In the
  seeding sweep the process sleeps the cooldown and then ends with
  \<open>SystemExit('Expired credentials')\<close>: there is no next request.
\<close>

theorem cooldown_adds_to_poll_interval:
  "http_feed_step env (RUNNING seen) (Response 200 (Text (Root [])))
      = ([Get, Sleep (COOLDOWN env), Sleep (timeout_interval env)], RUNNING seen)
   \<and> COOLDOWN env = 10 * timeout_interval env
   \<and> next_fetch_delay
        (tl (fst (http_feed env (RUNNING seen) (Response 200 (Text (Root [])) # g # gs))))
      = 11 * timeout_interval env
   \<and> http_feed env SEEDING (Response 200 (Text (Root [])) # gs)
      = ([Get, Sleep (COOLDOWN env)], ABORT ''Expired credentials'')"
proof (intro conjI)
  show s: "http_feed_step env (RUNNING seen) (Response 200 (Text (Root [])))
      = ([Get, Sleep (COOLDOWN env), Sleep (timeout_interval env)], RUNNING seen)"
    by simp
  show "COOLDOWN env = 10 * timeout_interval env" by (simp add: COOLDOWN_def)
  obtain evs where e: "fst (http_feed_step env (RUNNING seen) g) = Get # evs"
    using running_step_Get by blast
  have "fst (http_feed env (RUNNING seen) (g # gs))
     = Get # evs @ fst (http_feed env (snd (http_feed_step env (RUNNING seen) g)) gs)"
    using e by (simp add: split_beta del: http_feed_step.simps)
  then have "fst (http_feed env (RUNNING seen) (Response 200 (Text (Root [])) # g # gs))
     = [Get, Sleep (COOLDOWN env), Sleep (timeout_interval env)]
       @ Get # evs @ fst (http_feed env (snd (http_feed_step env (RUNNING seen) g)) gs)"
    using s by (simp add: split_beta del: http_feed_step.simps)
  then show "next_fetch_delay
        (tl (fst (http_feed env (RUNNING seen) (Response 200 (Text (Root [])) # g # gs))))
      = 11 * timeout_interval env"
    by (simp add: COOLDOWN_def del: http_feed.simps http_feed_step.simps)
  have "http_feed_step env SEEDING (Response 200 (Text (Root [])))
     = ([Get, Sleep (COOLDOWN env)], ABORT ''Expired credentials'')"
    by (simp add: LRU_new_Nil LRU_bool_def)
  then show "http_feed env SEEDING (Response 200 (Text (Root [])) # gs)
      = ([Get, Sleep (COOLDOWN env)], ABORT ''Expired credentials'')"
    by (simp add: http_feed_ABORT del: http_feed_step.simps)
qed

subsection \<open>The tracker client\<close>

text \<open>
  C5. The claim: a request that raises a request-level failure (connection reset or
  closed, payload error, invalid URL, operating system error, timeout), an answer whose
  status is not 200 and a body whose decoding times out all give an empty sweep and
  raise nothing, and a line is written to standard error exactly for an operating system
  error whose \<open>errno\<close> is not \<open>ECONNRESET\<close>; in particular a timeout of the request writes
  nothing. Two parts fail. From Python 3.11 on \<open>asyncio.TimeoutError\<close> is an \<open>OSError\<close>
  whose \<open>errno\<close> is \<open>None\<close>, so the test of line 77 holds for a timeout and the line
  \<open>Connection error: \<close> is written. And a connection the server closed raises
  \<open>aiohttp.ServerDisconnectedError\<close>, which is none of \<open>HTTP_EXCEPTIONS\<close> and propagates.
\<close>

theorem timeout_reported_counterexample:
  "tracker (example_env\<lparr>TimeoutError_is_OSError := True\<rparr>) (GetRaises (TimeoutError None []))
      = ([Get, Stderr (''Connection error: '' @ [CHR 0x0A])], Inr [])
   \<and> tracker example_env (GetRaises (ServerDisconnectedError ''Server disconnected''))
      = ([Get], Inl (ServerDisconnectedError ''Server disconnected''))"
  by (simp add: example_defs)

text \<open>
  C5, amended. A request that raises an exception of one of the classes of
  \<open>HTTP_EXCEPTIONS\<close>, an answer whose status is not 200 and a body whose decoding raises
  \<open>asyncio.TimeoutError\<close> all give an empty sweep and raise nothing; an exception of no
  class of \<open>HTTP_EXCEPTIONS\<close> propagates. For an absorbed exception a line is written to
  standard error exactly when it is an instance of \<open>OSError\<close> whose \<open>errno\<close> is not
  \<open>ECONNRESET\<close>; the other two failures write nothing. A connection reset (an \<open>OSError\<close>
  or \<open>ClientOSError\<close> with \<open>errno\<close> \<open>ECONNRESET\<close>) writes nothing. A timeout of the request
  writes nothing where \<open>asyncio.TimeoutError\<close> is not an \<open>OSError\<close> (before Python 3.11);
  where it is one, the line is written unless its \<open>errno\<close> is \<open>ECONNRESET\<close>.
\<close>

theorem tracker_absorbs_request_failures:
  "(HTTP_EXCEPTIONS e \<longrightarrow>
      snd (tracker env (GetRaises e)) = Inr []
      \<and> (stderr (fst (tracker env (GetRaises e))) \<noteq> [] \<longleftrightarrow>
           isinstance_OSError env e \<and> errno e \<noteq> Some ECONNRESET)
      \<and> (isinstance_OSError env e \<and> errno e \<noteq> Some ECONNRESET \<longrightarrow>
           fst (tracker env (GetRaises e))
             = [Get, Stderr (''Connection error: '' @ str e @ [CHR 0x0A])]))
   \<and> (\<not> HTTP_EXCEPTIONS e \<longrightarrow> tracker env (GetRaises e) = ([Get], Inl e))
   \<and> (status \<noteq> 200 \<longrightarrow> tracker env (Response status b) = ([Get], Inr []))
   \<and> tracker env (Response 200 (TextRaises (TimeoutError n m))) = ([Get], Inr [])
   \<and> tracker env (GetRaises (OSError (Some ECONNRESET) m)) = ([Get], Inr [])
   \<and> tracker env (GetRaises (ClientOSError (Some ECONNRESET) m)) = ([Get], Inr [])
   \<and> (stderr (fst (tracker env (GetRaises (TimeoutError n m)))) = [] \<longleftrightarrow>
        \<not> TimeoutError_is_OSError env \<or> n = Some ECONNRESET)"
  by (simp add: aprint_stderr_def)

theorem tracker_absorbs_request_failures_witness:
  "tracker example_env (GetRaises (OSError (Some 111) ''Connection refused''))
     = ([Get, Stderr (''Connection error: Connection refused'' @ [CHR 0x0A])], Inr [])
   \<and> tracker example_env (GetRaises (InvalidURL ''x'')) = ([Get], Inr [])
   \<and> tracker example_env (GetRaises (OtherException ''x'')) = ([Get], Inl (OtherException ''x''))
   \<and> tracker example_env (Response 302 (Text (Root [row_A]))) = ([Get], Inr [])
   \<and> tracker (example_env\<lparr>TimeoutError_is_OSError := False\<rparr>) (GetRaises (TimeoutError None []))
     = ([Get], Inr [])"
  using tracker_absorbs_request_failures[of "OSError (Some 111) ''Connection refused''"
      example_env 302 "Text (Root [row_A])" None "[]"]
    tracker_absorbs_request_failures[of "InvalidURL ''x''" example_env 302
      "Text (Root [row_A])" None "[]"]
    tracker_absorbs_request_failures[of "OtherException ''x''" example_env 302
      "Text (Root [row_A])" None "[]"]
    tracker_absorbs_request_failures[of "TimeoutError None []"
      "example_env\<lparr>TimeoutError_is_OSError := False\<rparr>" 302 "Text (Root [row_A])" None "[]"]
  by (simp add: aprint_stderr_def ECONNRESET_def example_env_def)

subsection \<open>The extractor\<close>




subsection \<open>The output and the cache in the running state\<close>

text \<open>
  C8. The claim: every emitted entry is written to standard output as exactly one line,
  the name, a NUL character, the link and a line feed. The form holds; "exactly one
  line" fails for a name with a line feed inside, which \<open>strip\<close> leaves in place: the
  running sweep below emits the entry of such a row, and the text it writes has two
  line feeds, the one of the name and the one that ends it.
\<close>

theorem emitted_two_lines_counterexample:
  "stdout (fst (http_feed_step example_env
      (RUNNING \<lparr>maxsize = 10, order = [''https://tracker/t/1'']\<rparr>) (listing [row_XY])))
     = [''X'' @ [CHR 0x0A] @ ''Y'' @ [CHR 0x00] @ ''https://tracker/t/2'' @ [CHR 0x0A]]
   \<and> count_list (hd (stdout (fst (http_feed_step example_env
      (RUNNING \<lparr>maxsize = 10, order = [''https://tracker/t/1'']\<rparr>) (listing [row_XY])))))
        (CHR 0x0A) = 2"
  by (simp add: example_defs)

text \<open>
  C8, amended. The texts a running sweep writes to standard output are, for each
  emitted entry in the order of the sweep, the name, a NUL character, the link and a
  line feed, and nothing else. When no name and no link of the sweep contains a line
  feed, each text is exactly one line: its only line feed is its last character. When
  none contains a NUL character, the only NUL of each text is the separator.
\<close>

theorem emitted_line_format:
  "tracker env g = (tevs, Inr es) \<longrightarrow>
     stdout (fst (http_feed_step env (RUNNING seen) g)) =
       map (\<lambda>e. fst e @ [CHR 0x00] @ snd e @ [CHR 0x0A])
         (filter (\<lambda>e. snd e \<notin> set (order seen)) es)
     \<and> ((\<forall>e \<in> set es. CHR 0x0A \<notin> set (fst e) \<union> set (snd e)) \<longrightarrow>
          (\<forall>l \<in> set (stdout (fst (http_feed_step env (RUNNING seen) g))).
             count_list l (CHR 0x0A) = 1 \<and> last l = CHR 0x0A))
     \<and> ((\<forall>e \<in> set es. CHR 0x00 \<notin> set (fst e) \<union> set (snd e)) \<longrightarrow>
          (\<forall>l \<in> set (stdout (fst (http_feed_step env (RUNNING seen) g))).
             count_list l (CHR 0x00) = 1))"
proof (intro impI)
  assume t: "tracker env g = (tevs, Inr es)"
  have eq: "stdout (fst (http_feed_step env (RUNNING seen) g)) =
       map (\<lambda>e. fst e @ [CHR 0x00] @ snd e @ [CHR 0x0A])
         (filter (\<lambda>e. snd e \<notin> set (order seen)) es)"
    by (rule running_step_stdout[OF t])
  show "stdout (fst (http_feed_step env (RUNNING seen) g)) =
       map (\<lambda>e. fst e @ [CHR 0x00] @ snd e @ [CHR 0x0A])
         (filter (\<lambda>e. snd e \<notin> set (order seen)) es)
     \<and> ((\<forall>e \<in> set es. CHR 0x0A \<notin> set (fst e) \<union> set (snd e)) \<longrightarrow>
          (\<forall>l \<in> set (stdout (fst (http_feed_step env (RUNNING seen) g))).
             count_list l (CHR 0x0A) = 1 \<and> last l = CHR 0x0A))
     \<and> ((\<forall>e \<in> set es. CHR 0x00 \<notin> set (fst e) \<union> set (snd e)) \<longrightarrow>
          (\<forall>l \<in> set (stdout (fst (http_feed_step env (RUNNING seen) g))).
             count_list l (CHR 0x00) = 1))"
    unfolding eq by (auto simp: count_list_0_iff)
qed

theorem emitted_line_format_witness:
  "stdout (fst (http_feed_step example_env
      (RUNNING \<lparr>maxsize = 10, order = [''https://tracker/t/1'']\<rparr>)
      (listing [row_A, row_B]))) = [line_B]
   \<and> count_list line_B (CHR 0x0A) = 1 \<and> last line_B = CHR 0x0A
   \<and> count_list line_B (CHR 0x00) = 1"
proof -
  have t: "tracker example_env (listing [row_A, row_B])
     = ([Get], Inr [(''B'', ''https://tracker/t/2''), (''A'', ''https://tracker/t/1'')])"
    by (simp add: example_defs)
  have s: "stdout (fst (http_feed_step example_env
      (RUNNING \<lparr>maxsize = 10, order = [''https://tracker/t/1'']\<rparr>)
      (listing [row_A, row_B]))) = [line_B]"
    by (simp add: example_defs)
  have n: "\<forall>e \<in> set [(''B'', ''https://tracker/t/2''), (''A'', ''https://tracker/t/1'')].
      CHR 0x0A \<notin> set (fst e) \<union> set (snd e)"
    by simp
  have z: "\<forall>e \<in> set [(''B'', ''https://tracker/t/2''), (''A'', ''https://tracker/t/1'')].
      CHR 0x00 \<notin> set (fst e) \<union> set (snd e)"
    by simp
  show ?thesis
    using t n z emitted_line_format[of example_env "listing [row_A, row_B]" "[Get]"
      "[(''B'', ''https://tracker/t/2''), (''A'', ''https://tracker/t/1'')]"
      "\<lparr>maxsize = 10, order = [''https://tracker/t/1'']\<rparr>"]
    unfolding s by simp
qed

text \<open>
  C9. The claim: the running loop leaves the key set of the cache as seeding made it, so
  whether an entry is emitted in a later sweep depends only on whether its link appeared
  in the seeding sweep. The last part fails when the seeding sweep has more distinct
  links than the cache holds: with a capacity of 1 the seeding sweep yields the links of
  B and of A, in this order, the cache keeps the link of A only, and the next sweep
  emits B, whose link did appear in the seeding sweep.
\<close>

theorem seeded_link_emitted_counterexample:
  "snd (tracker (example_env\<lparr>cache_limit := 1\<rparr>) (listing [row_A, row_B])) =
      Inr [(''B'', ''https://tracker/t/2''), (''A'', ''https://tracker/t/1'')]
   \<and> fst (http_feed (example_env\<lparr>cache_limit := 1\<rparr>) SEEDING
          [listing [row_A, row_B], listing [row_A, row_B]])
      = [Get, Get, Stdout line_B, Sleep 30]"
  by (simp add: example_defs)

text \<open>
  C9, amended. After any number of running sweeps the cache has the key set and the
  capacity it had after seeding, and the next sweep emits exactly the entries whose link
  is not in the key set seeding produced.
\<close>

theorem running_keeps_seeded_keys:
  "(snd (http_feed env (RUNNING seen) gs) = RUNNING seen1 \<longrightarrow>
      set (order seen1) = set (order seen) \<and> maxsize seen1 = maxsize seen
      \<and> (tracker env g = (tevs, Inr es) \<longrightarrow>
           stdout (fst (http_feed_step env (RUNNING seen1) g)) =
             map (\<lambda>e. fst e @ [CHR 0x00] @ snd e @ [CHR 0x0A])
               (filter (\<lambda>e. snd e \<notin> set (order seen)) es)))"
proof (intro impI conjI)
  assume a: "snd (http_feed env (RUNNING seen) gs) = RUNNING seen1"
  show k: "set (order seen1) = set (order seen)" using http_feed_keys[OF a] by simp
  show "maxsize seen1 = maxsize seen" using http_feed_keys[OF a] by simp
  assume t: "tracker env g = (tevs, Inr es)"
  show "stdout (fst (http_feed_step env (RUNNING seen1) g)) =
             map (\<lambda>e. fst e @ [CHR 0x00] @ snd e @ [CHR 0x0A])
               (filter (\<lambda>e. snd e \<notin> set (order seen)) es)"
    unfolding running_step_stdout[OF t] k ..
qed

theorem running_keeps_seeded_keys_witness:
  "snd (http_feed example_env (RUNNING \<lparr>maxsize = 10, order = [''https://tracker/t/1'']\<rparr>)
          [listing [row_A, row_B], listing [row_A, row_B]])
     = RUNNING \<lparr>maxsize = 10, order = [''https://tracker/t/1'']\<rparr>
   \<and> stdout (fst (http_feed_step example_env
          (RUNNING \<lparr>maxsize = 10, order = [''https://tracker/t/1'']\<rparr>)
          (listing [row_A, row_B]))) = [line_B]"
proof -
  have t: "tracker example_env (listing [row_A, row_B])
     = ([Get], Inr [(''B'', ''https://tracker/t/2''), (''A'', ''https://tracker/t/1'')])"
    by (simp add: example_defs)
  have s: "snd (http_feed example_env (RUNNING \<lparr>maxsize = 10, order = [''https://tracker/t/1'']\<rparr>)
          [listing [row_A, row_B], listing [row_A, row_B]])
     = RUNNING \<lparr>maxsize = 10, order = [''https://tracker/t/1'']\<rparr>"
    by (simp add: example_defs)
  show ?thesis
    using t s running_keeps_seeded_keys[of example_env
      "\<lparr>maxsize = 10, order = [''https://tracker/t/1'']\<rparr>"
      "[listing [row_A, row_B], listing [row_A, row_B]]"
      "\<lparr>maxsize = 10, order = [''https://tracker/t/1'']\<rparr>"
      "listing [row_A, row_B]" "[Get]"
      "[(''B'', ''https://tracker/t/2''), (''A'', ''https://tracker/t/1'')]"]
    by (simp add: line_B_def del: http_feed_step.simps http_feed.simps)
qed

subsection \<open>Stripping and the presence check\<close>

text \<open>
  C10. Every yielded entry is the stripped name of a content row, which neither starts
  nor ends with whitespace, and the row's stripped link joined to the base address. The
  presence check reads the unstripped strings: a row whose name is whitespace only (and
  whose link is present) yields an entry with the empty name, and a row whose link is
  whitespace only (and whose name is present) yields an entry whose link is the join of
  the base address with the empty string.
\<close>

theorem extractor_strips_after_presence_check:
  "(\<forall>e \<in> set (snd (extractor env (Root content))).
      (fst e = [] \<or> (\<not> isspace (hd (fst e)) \<and> \<not> isspace (last (fst e))))
      \<and> (\<exists>t \<in> set content. fst e = strip (NAME t)
            \<and> snd e = urljoin env (tracker_url env) (strip (LINK t))))
   \<and> (t \<in> set content \<and> NAME t \<noteq> [] \<and> list_all isspace (NAME t) \<and> LINK t \<noteq> [] \<longrightarrow>
        ([], urljoin env (tracker_url env) (strip (LINK t)))
          \<in> set (snd (extractor env (Root content))))
   \<and> (t \<in> set content \<and> NAME t \<noteq> [] \<and> LINK t \<noteq> [] \<and> list_all isspace (LINK t) \<longrightarrow>
        (strip (NAME t), urljoin env (tracker_url env) [])
          \<in> set (snd (extractor env (Root content))))"
proof (intro conjI ballI impI)
  fix e assume e: "e \<in> set (snd (extractor env (Root content)))"
  then obtain t where t: "t \<in> set content"
      "e = (strip (NAME t), urljoin env (tracker_url env) (strip (LINK t)))"
    unfolding extractor_entries by auto
  show "fst e = [] \<or> (\<not> isspace (hd (fst e)) \<and> \<not> isspace (last (fst e)))"
    using t(2) strip_edges[of "NAME t"] by simp
  show "\<exists>t \<in> set content. fst e = strip (NAME t)
      \<and> snd e = urljoin env (tracker_url env) (strip (LINK t))"
    using t by auto
next
  assume a: "t \<in> set content \<and> NAME t \<noteq> [] \<and> list_all isspace (NAME t) \<and> LINK t \<noteq> []"
  then have "strip (NAME t) = []" by (simp add: strip_whitespace_only)
  then have "([], urljoin env (tracker_url env) (strip (LINK t))) =
    (\<lambda>t. (strip (NAME t), urljoin env (tracker_url env) (strip (LINK t)))) t" by simp
  then show "([], urljoin env (tracker_url env) (strip (LINK t)))
      \<in> set (snd (extractor env (Root content)))"
    unfolding extractor_entries using a by (simp only: set_rev set_map set_filter) blast
next
  assume a: "t \<in> set content \<and> NAME t \<noteq> [] \<and> LINK t \<noteq> [] \<and> list_all isspace (LINK t)"
  then have "strip (LINK t) = []" by (simp add: strip_whitespace_only)
  then have "(strip (NAME t), urljoin env (tracker_url env) []) =
    (\<lambda>t. (strip (NAME t), urljoin env (tracker_url env) (strip (LINK t)))) t" by simp
  then show "(strip (NAME t), urljoin env (tracker_url env) [])
      \<in> set (snd (extractor env (Root content)))"
    unfolding extractor_entries using a by (simp only: set_rev set_map set_filter) blast
qed

theorem extractor_strips_after_presence_check_witness:
  "snd (extractor example_env
      (Root [\<lparr>NAME = ''  '', LINK = '' /t/1 ''\<rparr>, \<lparr>NAME = '' B '', LINK = '' ''\<rparr>]))
     = [(''B'', ''https://tracker/''), ([], ''https://tracker/t/1'')]"
  using extractor_strips_after_presence_check[of example_env
      "[\<lparr>NAME = ''  '', LINK = '' /t/1 ''\<rparr>, \<lparr>NAME = '' B '', LINK = '' ''\<rparr>]"
      "\<lparr>NAME = ''  '', LINK = '' /t/1 ''\<rparr>"]
    extractor_strips_after_presence_check[of example_env
      "[\<lparr>NAME = ''  '', LINK = '' /t/1 ''\<rparr>, \<lparr>NAME = '' B '', LINK = '' ''\<rparr>]"
      "\<lparr>NAME = '' B '', LINK = '' ''\<rparr>"]
  by (simp add: example_defs)

end
